theory Spec2Isabelle
  imports Complex_Main "HOL-Library.Multiset"
begin

section \<open>The SQS message-queueing engine of localstack\<close>

text \<open>
  A shallow embedding of \<^verbatim>\<open>localstack/services/sqs/models.py\<close> and of the message move
  task manager of \<^verbatim>\<open>localstack/services/sqs/provider.py\<close>.

  Conventions of the embedding.
  \<^item> Python objects of class \<^verbatim>\<open>SqsMessage\<close> are mutable and shared between the structures
    of a queue (heap, in-flight set, receipt table, deduplication table), so a queue carries
    an object store \<open>objs\<close> from references (natural numbers) to message records, and the
    structures hold references.
  \<^item> \<^verbatim>\<open>SqsMessage.__eq__\<close> and \<^verbatim>\<open>__hash__\<close> go by message id, the order relations by
    \<open>priority\<close>. Python sets of messages are lists of references whose membership test
    compares message ids.
  \<^item> Timestamps are real numbers; every reading of \<^verbatim>\<open>time.time()\<close> is an explicit
    argument of the operation that reads the clock.
  \<^item> The semantics is sequential: a blocking \<^verbatim>\<open>get\<close> on an empty structure ends with
    \<^verbatim>\<open>Empty\<close>, the mutex is not modelled.
  \<^item> An exception is a value of type \<open>error\<close>; a fallible operation returns
    \<open>error + 'a\<close> with \<open>Inl\<close> for the exception.
\<close>

subsection \<open>Messages\<close>

record ReceiptHandle =
  handle_queue_arn :: string
  handle_message_id :: string
  handle_last_received :: "real option"

text \<open>
  The \<^verbatim>\<open>Message\<close> dictionary of the API: the message id, the body, and the system
  attributes (\<^verbatim>\<open>message["Attributes"]\<close>) the engine reads or writes. An absent attribute
  is \<open>None\<close>.
\<close>

record Message =
  MessageId :: string
  Body :: string
  MessageGroupId :: "string option"
  MessageDeduplicationId :: "string option"
  SequenceNumber :: "string option"
  DeadLetterQueueSourceArn :: "string option"
  ApproximateReceiveCount :: "int option"

record SqsMessage =
  message :: Message
  created :: real
  visibility_timeout :: int
  receive_count :: int
  delay_seconds :: "int option"
  receipt_handles :: "ReceiptHandle list"
  last_received :: "real option"
  first_received :: "real option"
  visibility_deadline :: "real option"
  deleted :: bool
  priority :: real
  sequence_number :: "string option"

text \<open>
  \<^verbatim>\<open>SqsMessage.__init__(priority, message, message_deduplication_id, message_group_id,
  sequence_number)\<close>. The argument \<open>now\<close> is the reading of the clock that becomes
  \<open>created\<close>. The attributes given override those of the dictionary, and
  \<^verbatim>\<open>ApproximateReceiveCount\<close> defaults to 0. The constructor leaves
  \<open>visibility_timeout\<close> unset; both \<^verbatim>\<open>put\<close> methods assign it right after the
  construction, so the value here is never read.
\<close>

definition SqsMessage_init ::
  "real \<Rightarrow> real \<Rightarrow> Message \<Rightarrow> string option \<Rightarrow> string option \<Rightarrow> string option \<Rightarrow> SqsMessage" where
  "SqsMessage_init now prio msg dedup_id group_id seq =
     \<lparr> message = msg
         \<lparr> MessageGroupId := (case group_id of None \<Rightarrow> MessageGroupId msg | Some g \<Rightarrow> Some g),
           MessageDeduplicationId :=
             (case dedup_id of None \<Rightarrow> MessageDeduplicationId msg | Some d \<Rightarrow> Some d),
           SequenceNumber := (case seq of None \<Rightarrow> SequenceNumber msg | Some n \<Rightarrow> Some n),
           ApproximateReceiveCount :=
             (case ApproximateReceiveCount msg of None \<Rightarrow> Some 0 | Some c \<Rightarrow> Some c) \<rparr>,
       created = now,
       visibility_timeout = 0,
       receive_count = 0,
       delay_seconds = None,
       receipt_handles = [],
       last_received = None,
       first_received = None,
       visibility_deadline = None,
       deleted = False,
       priority = prio,
       sequence_number = seq \<rparr>"

text \<open>The properties of \<^verbatim>\<open>SqsMessage\<close> that read the dictionary.\<close>

definition message_group_id :: "SqsMessage \<Rightarrow> string option" where
  "message_group_id m = MessageGroupId (message m)"

definition message_deduplication_id :: "SqsMessage \<Rightarrow> string option" where
  "message_deduplication_id m = MessageDeduplicationId (message m)"

definition dead_letter_queue_source_arn :: "SqsMessage \<Rightarrow> string option" where
  "dead_letter_queue_source_arn m = DeadLetterQueueSourceArn (message m)"

definition message_id :: "SqsMessage \<Rightarrow> string" where
  "message_id m = MessageId (message m)"

definition increment_approximate_receive_count :: "SqsMessage \<Rightarrow> SqsMessage" where
  "increment_approximate_receive_count m =
     m\<lparr> message := (message m)
          \<lparr> ApproximateReceiveCount :=
              Some ((case ApproximateReceiveCount (message m) of None \<Rightarrow> 0 | Some c \<Rightarrow> c) + 1) \<rparr> \<rparr>"

definition set_last_received :: "SqsMessage \<Rightarrow> real \<Rightarrow> SqsMessage" where
  "set_last_received m timestamp =
     m\<lparr> last_received := Some timestamp,
        visibility_deadline := Some (timestamp + of_int (visibility_timeout m)) \<rparr>"

text \<open>\<^verbatim>\<open>update_visibility_timeout(timeout)\<close>; \<open>now\<close> is its reading of the clock.\<close>

definition update_visibility_timeout :: "SqsMessage \<Rightarrow> int \<Rightarrow> real \<Rightarrow> SqsMessage" where
  "update_visibility_timeout m timeout now =
     m\<lparr> visibility_timeout := timeout, visibility_deadline := Some (now + of_int timeout) \<rparr>"

definition is_visible :: "SqsMessage \<Rightarrow> real \<Rightarrow> bool" where
  "is_visible m now =
     (case visibility_deadline m of None \<Rightarrow> True | Some d \<Rightarrow> if now \<ge> d then True else False)"

definition is_delayed :: "SqsMessage \<Rightarrow> real \<Rightarrow> bool" where
  "is_delayed m now =
     (case delay_seconds m of None \<Rightarrow> False | Some d \<Rightarrow> now \<le> created m + of_int d)"

type_synonym ref = nat
type_synonym store = "ref \<Rightarrow> SqsMessage"

text \<open>\<^verbatim>\<open>SqsMessage.__lt__\<close>: messages are ordered by priority only.\<close>

definition msg_lt :: "store \<Rightarrow> ref \<Rightarrow> ref \<Rightarrow> bool" where
  "msg_lt objs a b = (priority (objs a) < priority (objs b))"

text \<open>\<^verbatim>\<open>SqsMessage.__eq__\<close>: messages are equal when their message ids are.\<close>

definition msg_eq :: "store \<Rightarrow> ref \<Rightarrow> ref \<Rightarrow> bool" where
  "msg_eq objs a b = (message_id (objs a) = message_id (objs b))"

subsection \<open>The heap queue algorithm (\<^verbatim>\<open>heapq\<close>) on lists of messages\<close>

text \<open>
  \<^verbatim>\<open>_siftdown(heap, startpos, pos)\<close>: the item at \<open>pos\<close> is moved towards the root while
  it is smaller than its parent. The loop keeps \<open>newitem\<close> aside and writes it last.
\<close>

function siftdown_loop :: "store \<Rightarrow> ref list \<Rightarrow> ref \<Rightarrow> nat \<Rightarrow> nat \<Rightarrow> ref list" where
  "siftdown_loop objs heap newitem startpos pos =
     (if pos > startpos then
        (let parentpos = (pos - 1) div 2;
             parent = heap ! parentpos
         in if msg_lt objs newitem parent
            then siftdown_loop objs (heap[pos := parent]) newitem startpos parentpos
            else heap[pos := newitem])
      else heap[pos := newitem])"
  by pat_completeness auto
termination
  by (relation "measure (\<lambda>(objs, heap, newitem, startpos, pos). pos)") auto

declare siftdown_loop.simps [simp del]

definition siftdown :: "store \<Rightarrow> ref list \<Rightarrow> nat \<Rightarrow> nat \<Rightarrow> ref list" where
  "siftdown objs heap startpos pos = siftdown_loop objs heap (heap ! pos) startpos pos"

text \<open>
  \<^verbatim>\<open>_siftup(heap, pos)\<close>: the smaller child is moved up until a leaf is reached, then the
  item is put at the leaf and sifted down (towards the root) to its place.
\<close>

function siftup_loop :: "store \<Rightarrow> ref list \<Rightarrow> nat \<Rightarrow> nat \<Rightarrow> ref list \<times> nat" where
  "siftup_loop objs heap endpos pos =
     (let childpos = 2 * pos + 1
      in if childpos < endpos then
           (let rightpos = childpos + 1;
                childpos' = (if rightpos < endpos
                                  \<and> \<not> msg_lt objs (heap ! childpos) (heap ! rightpos)
                             then rightpos else childpos)
            in siftup_loop objs (heap[pos := heap ! childpos']) endpos childpos')
         else (heap, pos))"
  by pat_completeness auto
termination
  by (relation "measure (\<lambda>(objs, heap, endpos, pos). endpos - pos)") (auto split: if_splits)

declare siftup_loop.simps [simp del]

definition siftup :: "store \<Rightarrow> ref list \<Rightarrow> nat \<Rightarrow> ref list" where
  "siftup objs heap pos =
     (let endpos = length heap;
          startpos = pos;
          newitem = heap ! pos;
          (heap', pos') = siftup_loop objs heap endpos pos
      in siftdown objs (heap'[pos' := newitem]) startpos pos')"

text \<open>\<^verbatim>\<open>heapq.heappush(heap, item)\<close>.\<close>

definition heappush :: "store \<Rightarrow> ref list \<Rightarrow> ref \<Rightarrow> ref list" where
  "heappush objs heap item = siftdown objs (heap @ [item]) 0 (length heap)"

text \<open>\<^verbatim>\<open>heapq.heappop(heap)\<close>; \<open>None\<close> is the \<^verbatim>\<open>IndexError\<close> of an empty heap.\<close>

definition heappop :: "store \<Rightarrow> ref list \<Rightarrow> (ref \<times> ref list) option" where
  "heappop objs heap =
     (if heap = [] then None
      else (let lastelt = last heap;
                heap' = butlast heap
            in if heap' \<noteq> [] then
                 (let returnitem = heap' ! 0
                  in Some (returnitem, siftup objs (heap'[0 := lastelt]) 0))
               else Some (lastelt, heap')))"

text \<open>\<^verbatim>\<open>heapq.heapify(x)\<close>: \<^verbatim>\<open>for i in reversed(range(n//2)): _siftup(x, i)\<close>.\<close>

definition heapify :: "store \<Rightarrow> ref list \<Rightarrow> ref list" where
  "heapify objs x = fold (\<lambda>i h. siftup objs h i) (rev [0..<length x div 2]) x"

text \<open>The heap property of \<^verbatim>\<open>heapq\<close>: no item is smaller than its parent.\<close>

definition is_heap :: "store \<Rightarrow> ref list \<Rightarrow> bool" where
  "is_heap objs heap =
     (\<forall>i \<in> {1..<length heap}. priority (objs (heap ! ((i - 1) div 2))) \<le> priority (objs (heap ! i)))"

subsection \<open>The heap algorithms keep the heap property\<close>

text \<open>
  \<open>hole_ok objs h p\<close>: the list \<open>h\<close> is a heap as far as position \<open>p\<close> is not looked at.
  Every item other than \<open>p\<close> and its children is at least its parent, and the children of
  \<open>p\<close> are at least the parent of \<open>p\<close>. Both sifting loops keep it.
\<close>

definition hole_ok :: "store \<Rightarrow> ref list \<Rightarrow> nat \<Rightarrow> bool" where
  "hole_ok objs h p \<longleftrightarrow>
     (\<forall>i. 0 < i \<and> i < length h \<and> i \<noteq> p \<and> (i - 1) div 2 \<noteq> p \<longrightarrow>
        priority (objs (h ! ((i - 1) div 2))) \<le> priority (objs (h ! i))) \<and>
     (\<forall>c. 0 < p \<and> 0 < c \<and> c < length h \<and> (c - 1) div 2 = p \<longrightarrow>
        priority (objs (h ! ((p - 1) div 2))) \<le> priority (objs (h ! c)))"

lemma parent_less: "0 < p \<Longrightarrow> (p - 1) div 2 < (p::nat)"
  by arith

lemma hole_okD1:
  "hole_ok objs h p \<Longrightarrow> 0 < i \<Longrightarrow> i < length h \<Longrightarrow> i \<noteq> p \<Longrightarrow> (i - 1) div 2 \<noteq> p \<Longrightarrow>
   priority (objs (h ! ((i - 1) div 2))) \<le> priority (objs (h ! i))"
  unfolding hole_ok_def by blast

lemma hole_okD2:
  "hole_ok objs h p \<Longrightarrow> 0 < p \<Longrightarrow> 0 < c \<Longrightarrow> c < length h \<Longrightarrow> (c - 1) div 2 = p \<Longrightarrow>
   priority (objs (h ! ((p - 1) div 2))) \<le> priority (objs (h ! c))"
  unfolding hole_ok_def by blast

lemma hole_okI:
  assumes "\<And>i. 0 < i \<Longrightarrow> i < length h \<Longrightarrow> i \<noteq> p \<Longrightarrow> (i - 1) div 2 \<noteq> p \<Longrightarrow>
        priority (objs (h ! ((i - 1) div 2))) \<le> priority (objs (h ! i))"
    and "\<And>c. 0 < p \<Longrightarrow> 0 < c \<Longrightarrow> c < length h \<Longrightarrow> (c - 1) div 2 = p \<Longrightarrow>
        priority (objs (h ! ((p - 1) div 2))) \<le> priority (objs (h ! c))"
  shows "hole_ok objs h p"
  unfolding hole_ok_def using assms by blast

lemma length_siftdown_loop [simp]:
  "length (siftdown_loop objs h x s p) = length h"
  by (induction objs h x s p rule: siftdown_loop.induct)
     (subst siftdown_loop.simps, simp add: Let_def)

lemma siftdown_step_hole:
  assumes p: "pos < length heap" "0 < pos"
    and h: "hole_ok objs heap pos"
  shows "hole_ok objs (heap[pos := heap ! ((pos - 1) div 2)]) ((pos - 1) div 2)"
proof (rule hole_okI)
  let ?pp = "(pos - 1) div 2"
  let ?h' = "heap[pos := heap ! ?pp]"
  fix i assume i: "0 < i" "i < length ?h'" "i \<noteq> ?pp" "(i - 1) div 2 \<noteq> ?pp"
  then have ipos: "i \<noteq> pos" by blast
  have il: "i < length heap" using i by simp
  show "priority (objs (?h' ! ((i - 1) div 2))) \<le> priority (objs (?h' ! i))"
  proof (cases "(i - 1) div 2 = pos")
    case True
    have "priority (objs (heap ! ?pp)) \<le> priority (objs (heap ! i))"
      using hole_okD2 [OF h p(2) i(1) il True] .
    then show ?thesis using True ipos p by simp
  next
    case False
    have "priority (objs (heap ! ((i - 1) div 2))) \<le> priority (objs (heap ! i))"
      using hole_okD1 [OF h i(1) il ipos False] .
    then show ?thesis using False ipos by simp
  qed
next
  let ?pp = "(pos - 1) div 2"
  let ?h' = "heap[pos := heap ! ?pp]"
  fix c assume c: "0 < ?pp" "0 < c" "c < length ?h'" "(c - 1) div 2 = ?pp"
  have cl: "c < length heap" using c by simp
  have pp: "?pp < pos" using p by simp
  have ppl: "?pp < length heap" using pp p by simp
  have ne1: "?pp \<noteq> pos" using pp by simp
  have ne2: "(?pp - 1) div 2 \<noteq> pos" using pp by linarith
  have e1: "priority (objs (heap ! ((?pp - 1) div 2))) \<le> priority (objs (heap ! ?pp))"
    using hole_okD1 [OF h c(1) ppl ne1 ne2] .
  show "priority (objs (?h' ! ((?pp - 1) div 2))) \<le> priority (objs (?h' ! c))"
  proof (cases "c = pos")
    case True
    then show ?thesis using e1 ne2 p by simp
  next
    case False
    have "(c - 1) div 2 \<noteq> pos" using c(4) ne1 by simp
    then have "priority (objs (heap ! ((c - 1) div 2))) \<le> priority (objs (heap ! c))"
      using hole_okD1 [OF h c(2) cl False] by simp
    then show ?thesis using e1 ne2 False c(4) by simp
  qed
qed


lemma siftdown_loop_is_heap:
  assumes "p < length h" "hole_ok objs h p"
    and "\<And>c. 0 < c \<Longrightarrow> c < length h \<Longrightarrow> (c - 1) div 2 = p \<Longrightarrow>
            priority (objs x) \<le> priority (objs (h ! c))"
  shows "is_heap objs (siftdown_loop objs h x 0 p)"
  using assms
proof (induction p arbitrary: h rule: less_induct)
  case (less pos heap)
  let ?pp = "(pos - 1) div 2"
  show ?case
  proof (cases "0 < pos \<and> msg_lt objs x (heap ! ?pp)")
    case True
    let ?h' = "heap[pos := heap ! ?pp]"
    have pp: "?pp < pos" using True by (intro parent_less) simp
    have lt: "priority (objs x) < priority (objs (heap ! ?pp))"
      using True by (simp add: msg_lt_def)
    have a: "?pp < length ?h'" using pp less.prems(1) by simp
    have b: "hole_ok objs ?h' ?pp"
      using siftdown_step_hole [OF less.prems(1) _ less.prems(2)] True by simp
    have c: "priority (objs x) \<le> priority (objs (?h' ! c))"
      if c: "0 < c" "c < length ?h'" "(c - 1) div 2 = ?pp" for c
    proof (cases "c = pos")
      case True
      then show ?thesis using lt less.prems(1) by simp
    next
      case False
      have cl: "c < length heap" using c by simp
      have "(c - 1) div 2 \<noteq> pos" using c(3) pp by simp
      then have "priority (objs (heap ! ((c - 1) div 2))) \<le> priority (objs (heap ! c))"
        using hole_okD1 [OF less.prems(2) c(1) cl False] by simp
      then show ?thesis using lt False c(3) by simp
    qed
    have "is_heap objs (siftdown_loop objs ?h' x 0 ?pp)"
      using less.IH [OF pp a b c] by blast
    then show ?thesis using True
      by (subst siftdown_loop.simps) (simp add: Let_def)
  next
    case False
    have eq: "siftdown_loop objs heap x 0 pos = heap[pos := x]"
      using False by (subst siftdown_loop.simps) (auto simp: Let_def)
    have "is_heap objs (heap[pos := x])"
      unfolding is_heap_def
    proof
      fix i assume "i \<in> {1..<length (heap[pos := x])}"
      then have i: "0 < i" "i < length heap" by auto
      show "priority (objs (heap[pos := x] ! ((i - 1) div 2)))
              \<le> priority (objs (heap[pos := x] ! i))"
      proof (cases "i = pos")
        case True
        then have "\<not> msg_lt objs x (heap ! ?pp)" using False i by simp
        moreover have "?pp \<noteq> pos" using i True by auto
        ultimately show ?thesis using True i by (simp add: msg_lt_def)
      next
        case ne: False
        show ?thesis
        proof (cases "(i - 1) div 2 = pos")
          case True
          then show ?thesis using less.prems(3) [OF i True] i ne less.prems(1) by simp
        next
          case False
          then show ?thesis using hole_okD1 [OF less.prems(2) i ne False] ne by simp
        qed
      qed
    qed
    then show ?thesis by (simp add: eq)
  qed
qed

lemma siftdown_loop_mset:
  "p < length h \<Longrightarrow> mset (siftdown_loop objs h x 0 p) = mset (h[p := x])"
proof (induction p arbitrary: h rule: less_induct)
  case (less pos heap)
  let ?pp = "(pos - 1) div 2"
  show ?case
  proof (cases "0 < pos \<and> msg_lt objs x (heap ! ?pp)")
    case True
    let ?h' = "heap[pos := heap ! ?pp]"
    have pp: "?pp < pos" using True by (intro parent_less) simp
    have a: "?pp < length ?h'" using pp less.prems by simp
    have "mset (siftdown_loop objs ?h' x 0 ?pp) = mset (?h'[?pp := x])"
      using less.IH [OF pp a] .
    also have "?h'[?pp := x] = (heap[pos := x])[pos := (heap[pos := x]) ! ?pp, ?pp := (heap[pos := x]) ! pos]"
      using pp less.prems by simp
    also have "mset \<dots> = mset (heap[pos := x])"
      using pp less.prems by (intro mset_swap) simp_all
    finally show ?thesis using True
      by (subst siftdown_loop.simps) (simp add: Let_def)
  next
    case False
    then show ?thesis by (subst siftdown_loop.simps) (auto simp: Let_def)
  qed
qed


lemma siftup_step_hole:
  assumes c: "2 * p + 1 < length h"
    and h: "hole_ok objs h p"
    and c': "c' = (if 2 * p + 2 < length h \<and> \<not> msg_lt objs (h ! (2 * p + 1)) (h ! (2 * p + 2))
                   then 2 * p + 2 else 2 * p + 1)"
  shows "hole_ok objs (h[p := h ! c']) c'"
proof (rule hole_okI)
  let ?h1 = "h[p := h ! c']"
  have c'l: "c' < length h" using c c' by (simp split: if_splits)
  have pc': "(c' - 1) div 2 = p" using c' by (simp split: if_splits)
  have c'pos: "0 < c'" "p < c'" using c' by (simp_all split: if_splits)
  have pl: "p < length h" using c by simp
  fix i assume i: "0 < i" "i < length ?h1" "i \<noteq> c'" "(i - 1) div 2 \<noteq> c'"
  have il: "i < length h" using i by simp
  show "priority (objs (?h1 ! ((i - 1) div 2))) \<le> priority (objs (?h1 ! i))"
  proof (cases "i = p")
    case True
    have "(p - 1) div 2 \<noteq> p" using i True by arith
    moreover have "priority (objs (h ! ((p - 1) div 2))) \<le> priority (objs (h ! c'))"
      using hole_okD2 [OF h _ c'pos(1) c'l pc'] i True by simp
    ultimately show ?thesis using True pl by simp
  next
    case ne: False
    show ?thesis
    proof (cases "(i - 1) div 2 = p")
      case True
      then have "i = 2 * p + 1 \<or> i = 2 * p + 2" using i(1) by arith
      then have "priority (objs (h ! c')) \<le> priority (objs (h ! i))"
        using c' i(3) il by (auto simp: msg_lt_def split: if_splits)
      then show ?thesis using True ne pl by simp
    next
      case False
      then show ?thesis using hole_okD1 [OF h i(1) il ne False] ne by simp
    qed
  qed
next
  let ?h1 = "h[p := h ! c']"
  have c'l: "c' < length h" using c c' by (simp split: if_splits)
  have pc': "(c' - 1) div 2 = p" using c' by (simp split: if_splits)
  have c'pos: "0 < c'" "p < c'" using c' by (simp_all split: if_splits)
  have pl: "p < length h" using c by simp
  fix g assume g: "0 < c'" "0 < g" "g < length ?h1" "(g - 1) div 2 = c'"
  have gl: "g < length h" using g by simp
  have gp: "g \<noteq> p" using g(4) c'pos by arith
  have "(g - 1) div 2 \<noteq> p" using g(4) c'pos by simp
  then have "priority (objs (h ! ((g - 1) div 2))) \<le> priority (objs (h ! g))"
    using hole_okD1 [OF h g(2) gl gp] by simp
  then show "priority (objs (?h1 ! ((c' - 1) div 2))) \<le> priority (objs (?h1 ! g))"
    using pc' pl gp g(4) by simp
qed

lemma siftup_loop_props:
  assumes "p < length h" "hole_ok objs h p"
    and "siftup_loop objs h (length h) p = (h', p')"
  shows "hole_ok objs h' p' \<and> p' < length h \<and> length h' = length h \<and> length h \<le> 2 * p' + 1
         \<and> (\<forall>x. mset (h'[p' := x]) = mset (h[p := x]))"
  using assms
proof (induction "length h - p" arbitrary: h p rule: less_induct)
  case less
  show ?case
  proof (cases "2 * p + 1 < length h")
    case False
    then have "siftup_loop objs h (length h) p = (h, p)"
      by (subst siftup_loop.simps) (simp add: Let_def)
    then show ?thesis using less.prems False by simp
  next
    case True
    define c' where "c' = (if 2 * p + 2 < length h \<and> \<not> msg_lt objs (h ! (2 * p + 1)) (h ! (2 * p + 2))
                   then 2 * p + 2 else 2 * p + 1)"
    let ?h1 = "h[p := h ! c']"
    have c'l: "c' < length h" "p < c'" using True c'_def by (simp_all split: if_splits)
    have step: "siftup_loop objs h (length h) p = siftup_loop objs ?h1 (length ?h1) c'"
      using True by (subst siftup_loop.simps) (simp add: Let_def c'_def)
    have hole: "hole_ok objs ?h1 c'"
      using siftup_step_hole [OF True less.prems(2) c'_def] .
    have m: "length ?h1 - c' < length h - p" using c'l by simp
    have c'l1: "c' < length ?h1" using c'l by simp
    have r: "siftup_loop objs ?h1 (length ?h1) c' = (h', p')"
      using step less.prems(3) by simp
    have IH: "hole_ok objs h' p' \<and> p' < length ?h1 \<and> length h' = length ?h1 \<and> length ?h1 \<le> 2 * p' + 1
         \<and> (\<forall>x. mset (h'[p' := x]) = mset (?h1[c' := x]))"
      using less.hyps [OF m c'l1 hole r] .
    have sw: "mset (?h1[c' := x]) = mset (h[p := x])" for x
    proof -
      have "?h1[c' := x] = (h[p := x])[p := (h[p := x]) ! c', c' := (h[p := x]) ! p]"
        using c'l less.prems(1) by simp
      also have "mset \<dots> = mset (h[p := x])"
        using c'l less.prems(1) by (intro mset_swap) simp_all
      finally show ?thesis .
    qed
    show ?thesis using IH sw by simp
  qed
qed

lemma length_siftup_loop:
  "siftup_loop objs h e p = (h', p') \<Longrightarrow> length h' = length h"
  by (induction objs h e p rule: siftup_loop.induct)
     (subst (asm) (2) siftup_loop.simps, simp add: Let_def split: if_splits)


lemma length_siftup [simp]: "length (siftup objs h p) = length h"
proof -
  obtain h' p' where r: "siftup_loop objs h (length h) p = (h', p')"
    by (cases "siftup_loop objs h (length h) p")
  then show ?thesis
    using length_siftup_loop [OF r] by (simp add: siftup_def siftdown_def Let_def)
qed

lemma is_heapD:
  "is_heap objs h \<Longrightarrow> 0 < i \<Longrightarrow> i < length h \<Longrightarrow>
   priority (objs (h ! ((i - 1) div 2))) \<le> priority (objs (h ! i))"
  unfolding is_heap_def by simp

lemma is_heap_hole: "is_heap objs h \<Longrightarrow> hole_ok objs h p"
proof (rule hole_okI)
  fix i assume "is_heap objs h" "0 < i" "i < length h"
  then show "priority (objs (h ! ((i - 1) div 2))) \<le> priority (objs (h ! i))"
    by (rule is_heapD)
next
  fix c assume c: "is_heap objs h" "0 < p" "0 < c" "c < length h" "(c - 1) div 2 = p"
  have "p < length h" using c by arith
  then have "priority (objs (h ! ((p - 1) div 2))) \<le> priority (objs (h ! p))"
    using is_heapD [OF c(1) c(2)] by simp
  moreover have "priority (objs (h ! p)) \<le> priority (objs (h ! c))"
    using is_heapD [OF c(1) c(3) c(4)] c(5) by simp
  ultimately show "priority (objs (h ! ((p - 1) div 2))) \<le> priority (objs (h ! c))"
    by simp
qed

lemma hole_ok_update: "p < length h \<Longrightarrow> hole_ok objs h p \<Longrightarrow> hole_ok objs (h[p := v]) p"
proof (rule hole_okI)
  fix i assume a: "p < length h" "hole_ok objs h p" "0 < i" "i < length (h[p := v])" "i \<noteq> p"
    "(i - 1) div 2 \<noteq> p"
  then show "priority (objs (h[p := v] ! ((i - 1) div 2))) \<le> priority (objs (h[p := v] ! i))"
    using hole_okD1 [of objs h p i] by simp
next
  fix c assume a: "p < length h" "hole_ok objs h p" "0 < p" "0 < c" "c < length (h[p := v])"
    "(c - 1) div 2 = p"
  have "c \<noteq> p" using a by arith
  moreover have "(p - 1) div 2 \<noteq> p" using a by arith
  ultimately show "priority (objs (h[p := v] ! ((p - 1) div 2))) \<le> priority (objs (h[p := v] ! c))"
    using hole_okD2 [of objs h p c] a by simp
qed

lemma is_heap_butlast: "is_heap objs h \<Longrightarrow> is_heap objs (butlast h)"
  unfolding is_heap_def by (auto simp: nth_butlast)

lemma heap_root_min:
  "is_heap objs h \<Longrightarrow> i < length h \<Longrightarrow> priority (objs (h ! 0)) \<le> priority (objs (h ! i))"
proof (induction i rule: less_induct)
  case (less i)
  show ?case
  proof (cases "i = 0")
    case True
    then show ?thesis by simp
  next
    case False
    then have pl: "(i - 1) div 2 < i" by arith
    have "priority (objs (h ! 0)) \<le> priority (objs (h ! ((i - 1) div 2)))"
      using less.IH [OF pl less.prems(1)] pl less.prems(2) by simp
    moreover have "priority (objs (h ! ((i - 1) div 2))) \<le> priority (objs (h ! i))"
      using is_heapD [OF less.prems(1) _ less.prems(2)] False by simp
    ultimately show ?thesis by simp
  qed
qed

lemma siftup_root:
  assumes "hole_ok objs h 0" "h \<noteq> []"
  shows "is_heap objs (siftup objs h 0) \<and> mset (siftup objs h 0) = mset h"
proof -
  obtain h' p' where r: "siftup_loop objs h (length h) 0 = (h', p')"
    by (cases "siftup_loop objs h (length h) 0")
  have l: "0 < length h" using assms by simp
  have P: "hole_ok objs h' p' \<and> p' < length h \<and> length h' = length h \<and> length h \<le> 2 * p' + 1
         \<and> (\<forall>x. mset (h'[p' := x]) = mset (h[0 := x]))"
    using siftup_loop_props [OF l assms(1) r] .
  let ?h2 = "h'[p' := h ! 0]"
  have eq: "siftup objs h 0 = siftdown_loop objs ?h2 (h ! 0) 0 p'"
    using r P by (simp add: siftup_def siftdown_def Let_def)
  have p'l: "p' < length ?h2" using P by simp
  have hole: "hole_ok objs ?h2 p'" using hole_ok_update P by simp
  have leaf: "priority (objs (h ! 0)) \<le> priority (objs (?h2 ! c))"
    if "0 < c" "c < length ?h2" "(c - 1) div 2 = p'" for c
  proof -
    have "c < length h" using that P by simp
    moreover have "2 * p' + 1 \<le> c" using that by arith
    ultimately show ?thesis using P by simp
  qed
  have 1: "is_heap objs (siftup objs h 0)"
    unfolding eq using siftdown_loop_is_heap [OF p'l hole leaf] by blast
  have "mset (siftup objs h 0) = mset (?h2[p' := h ! 0])"
    unfolding eq using siftdown_loop_mset [OF p'l] .
  also have "\<dots> = mset (h[0 := h ! 0])" using P by simp
  finally have 2: "mset (siftup objs h 0) = mset h" by simp
  show ?thesis using 1 2 by simp
qed

lemma heappop_props:
  assumes "is_heap objs h" "h \<noteq> []"
  shows "\<exists>h'. heappop objs h = Some (h ! 0, h') \<and> is_heap objs h'
              \<and> mset h = add_mset (h ! 0) (mset h')"
proof (cases "butlast h = []")
  case True
  then have "h = [last h]" using assms(2) by (metis append_butlast_last_id append_Nil)
  then obtain x where h: "h = [x]" by blast
  show ?thesis by (simp add: h heappop_def is_heap_def)
next
  case False
  let ?b = "butlast h"
  let ?h0 = "?b[0 := last h]"
  have pop: "heappop objs h = Some (?b ! 0, siftup objs ?h0 0)"
    using False assms(2) by (simp add: heappop_def Let_def)
  have bl: "0 < length ?b" using False by (cases "butlast h") simp_all
  have b0: "?b ! 0 = h ! 0" using bl by (simp add: nth_butlast)
  have "hole_ok objs ?b 0" using is_heap_hole [OF is_heap_butlast [OF assms(1)]] .
  then have hole: "hole_ok objs ?h0 0" using hole_ok_update [OF bl] by simp
  have ne: "?h0 \<noteq> []" using False by simp
  have S: "is_heap objs (siftup objs ?h0 0) \<and> mset (siftup objs ?h0 0) = mset ?h0"
    using siftup_root [OF hole ne] .
  have "mset h = mset (?b @ [last h])" using assms(2) by simp
  also have "\<dots> = add_mset (last h) (mset ?b)" by simp
  also have "mset ?b = add_mset (?b ! 0) (mset ?b - {#?b ! 0#})"
    using bl by simp
  finally have "mset h = add_mset (?b ! 0) (add_mset (last h) (mset ?b - {#?b ! 0#}))"
    by simp
  moreover have "mset ?h0 = add_mset (last h) (mset ?b - {#?b ! 0#})"
    using bl by (simp add: mset_update)
  ultimately have "mset h = add_mset (h ! 0) (mset (siftup objs ?h0 0))"
    using S b0 by simp
  then show ?thesis using pop S b0 by simp
qed

lemma heappop_length:
  "heappop objs h = Some (x, h') \<Longrightarrow> length h' < length h"
  by (auto simp: heappop_def Let_def split: if_splits)

lemma heappush_props:
  assumes "is_heap objs h"
  shows "is_heap objs (heappush objs h x) \<and> mset (heappush objs h x) = add_mset x (mset h)"
proof -
  let ?h1 = "h @ [x]"
  let ?n = "length h"
  have eq: "heappush objs h x = siftdown_loop objs ?h1 x 0 ?n"
    by (simp add: heappush_def siftdown_def)
  have nl: "?n < length ?h1" by simp
  have hole: "hole_ok objs ?h1 ?n"
  proof (rule hole_okI)
    fix i assume i: "0 < i" "i < length ?h1" "i \<noteq> ?n" "(i - 1) div 2 \<noteq> ?n"
    then have il: "i < length h" by simp
    then have "(i - 1) div 2 < length h" by arith
    then show "priority (objs (?h1 ! ((i - 1) div 2))) \<le> priority (objs (?h1 ! i))"
      using is_heapD [OF assms i(1) il] il by (simp add: nth_append)
  next
    fix c assume "0 < c" "c < length ?h1" "(c - 1) div 2 = ?n"
    then have False by simp
    then show "priority (objs (?h1 ! ((?n - 1) div 2))) \<le> priority (objs (?h1 ! c))" ..
  qed
  have leaf: "priority (objs x) \<le> priority (objs (?h1 ! c))"
    if "0 < c" "c < length ?h1" "(c - 1) div 2 = ?n" for c
  proof -
    have False using that by simp
    then show ?thesis ..
  qed
  have 1: "is_heap objs (heappush objs h x)"
    unfolding eq using siftdown_loop_is_heap [OF nl hole leaf] by blast
  have 2: "mset (heappush objs h x) = add_mset x (mset h)"
    unfolding eq using siftdown_loop_mset [OF nl, of objs x] by simp
  show ?thesis using 1 2 by simp
qed

subsection \<open>Expiry of messages in a heap\<close>

text \<open>
  \<^verbatim>\<open>SqsQueue.remove_expired_messages_from_heap(heap, message_retention_period)\<close>. The loop
  looks at the root \<^verbatim>\<open>heap[0]\<close> and pops it while it has expired. It returns the expired
  messages and leaves the rest in the heap; the model returns both lists. The branch
  \<open>None\<close> of \<open>heappop\<close> cannot be reached, since the heap is not empty there.
\<close>

function remove_expired_loop :: "store \<Rightarrow> real \<Rightarrow> ref list \<Rightarrow> ref list \<Rightarrow> ref list \<times> ref list" where
  "remove_expired_loop objs th heap expired =
     (if heap \<noteq> [] then
        (let message = heap ! 0
         in if th < created (objs message) then (expired, heap)
            else (case heappop objs heap of
                    None \<Rightarrow> (expired, heap)
                  | Some (popped, heap') \<Rightarrow> remove_expired_loop objs th heap' (expired @ [message])))
      else (expired, heap))"
  by pat_completeness auto
termination
  by (relation "measure (\<lambda>(objs, th, heap, expired). length heap)")
     (auto dest: heappop_length)

declare remove_expired_loop.simps [simp del]

definition remove_expired_messages_from_heap ::
  "store \<Rightarrow> ref list \<Rightarrow> int \<Rightarrow> real \<Rightarrow> ref list \<times> ref list" where
  "remove_expired_messages_from_heap objs heap message_retention_period now =
     (let th = now - of_int message_retention_period
      in remove_expired_loop objs th heap [])"

lemma remove_expired_loop_Nil: "remove_expired_loop objs th [] acc = (acc, [])"
  by (subst remove_expired_loop.simps) simp

lemma remove_expired_loop_stop:
  "heap \<noteq> [] \<Longrightarrow> th < created (objs (heap ! 0)) \<Longrightarrow>
   remove_expired_loop objs th heap acc = (acc, heap)"
  by (subst remove_expired_loop.simps) (simp add: Let_def)

lemma remove_expired_loop_pop:
  "heap \<noteq> [] \<Longrightarrow> \<not> th < created (objs (heap ! 0)) \<Longrightarrow> heappop objs heap = Some (x, h1) \<Longrightarrow>
   remove_expired_loop objs th heap acc = remove_expired_loop objs th h1 (acc @ [heap ! 0])"
  by (subst remove_expired_loop.simps) (simp add: Let_def)

lemma heap_root_created:
  assumes "is_heap objs heap" "\<forall>r \<in> set heap. priority (objs r) = created (objs r)" "r \<in> set heap"
  shows "created (objs (heap ! 0)) \<le> created (objs r)"
proof -
  obtain i where i: "i < length heap" "heap ! i = r"
    using assms(3) unfolding in_set_conv_nth by blast
  have ne: "0 < length heap" using i by (cases heap) simp_all
  have "priority (objs (heap ! 0)) \<le> priority (objs (heap ! i))"
    using heap_root_min [OF assms(1) i(1)] .
  moreover have "heap ! 0 \<in> set heap" using ne by (rule nth_mem)
  then have "priority (objs (heap ! 0)) = created (objs (heap ! 0))"
    using assms(2) by blast
  moreover have "priority (objs r) = created (objs r)"
    using assms(2,3) by blast
  ultimately show ?thesis unfolding i(2) by linarith
qed

lemma remove_expired_loop_props:
  assumes "is_heap objs heap"
    and "\<forall>r \<in> set heap. priority (objs r) = created (objs r)"
    and "remove_expired_loop objs th heap acc = (expired, heap')"
  shows "mset heap' = filter_mset (\<lambda>r. th < created (objs r)) (mset heap)
       \<and> is_heap objs heap'
       \<and> (\<exists>popped. expired = acc @ popped \<and> sorted (map (\<lambda>r. created (objs r)) popped)
              \<and> mset popped = filter_mset (\<lambda>r. created (objs r) \<le> th) (mset heap))"
  using assms
proof (induction "length heap" arbitrary: heap acc rule: less_induct)
  case less
  show ?case
  proof (cases "heap = []")
    case True
    have e: "expired = acc" "heap' = []"
      using less.prems(3) unfolding True remove_expired_loop_Nil by simp_all
    have "is_heap objs ([]::ref list)" by (simp add: is_heap_def)
    then show ?thesis unfolding e True by simp
  next
    case ne: False
    show ?thesis
    proof (cases "th < created (objs (heap ! 0))")
      case True
      have e: "expired = acc" "heap' = heap"
        using less.prems(3)
        unfolding remove_expired_loop_stop [where objs = objs and th = th and heap = heap, OF ne True]
        by simp_all
      have all: "th < created (objs r)" if "r \<in> set heap" for r
        using heap_root_created [OF less.prems(1,2) that] True by linarith
      have 1: "filter_mset (\<lambda>r. th < created (objs r)) (mset heap) = mset heap"
      proof -
        have "filter_mset (\<lambda>r. th < created (objs r)) (mset heap) = filter_mset (\<lambda>r. True) (mset heap)"
          by (rule filter_mset_cong0) (simp add: all)
        then show ?thesis by simp
      qed
      have 2: "filter_mset (\<lambda>r. created (objs r) \<le> th) (mset heap) = {#}"
        unfolding filter_mset_eq_mempty_iff using all by fastforce
      have "acc = acc @ [] \<and> sorted (map (\<lambda>r. created (objs r)) [])
              \<and> mset [] = filter_mset (\<lambda>r. created (objs r) \<le> th) (mset heap)"
        unfolding 2 by simp
      then show ?thesis unfolding e 1 using less.prems(1) by blast
    next
      case False
      obtain h1 where pop: "heappop objs heap = Some (heap ! 0, h1)"
        and h1: "is_heap objs h1" and ms: "mset heap = add_mset (heap ! 0) (mset h1)"
        using heappop_props [OF less.prems(1) ne] by blast
      have len: "length h1 < length heap" using heappop_length [OF pop] .
      have "set_mset (mset heap) = insert (heap ! 0) (set_mset (mset h1))"
        unfolding ms by simp
      then have sub: "set h1 \<subseteq> set heap" by auto
      have pc: "\<forall>r \<in> set h1. priority (objs r) = created (objs r)"
        using less.prems(2) sub by blast
      have r: "remove_expired_loop objs th h1 (acc @ [heap ! 0]) = (expired, heap')"
        using less.prems(3)
        unfolding remove_expired_loop_pop [where objs = objs and th = th and heap = heap, OF ne False pop] .
      have IH: "mset heap' = filter_mset (\<lambda>r. th < created (objs r)) (mset h1)
       \<and> is_heap objs heap'
       \<and> (\<exists>popped. expired = (acc @ [heap ! 0]) @ popped \<and> sorted (map (\<lambda>r. created (objs r)) popped)
              \<and> mset popped = filter_mset (\<lambda>r. created (objs r) \<le> th) (mset h1))"
        using less.hyps [OF len h1 pc r] .
      then obtain popped where p: "expired = (acc @ [heap ! 0]) @ popped"
        "sorted (map (\<lambda>r. created (objs r)) popped)"
        "mset popped = filter_mset (\<lambda>r. created (objs r) \<le> th) (mset h1)" by blast
      have "set_mset (mset popped) \<subseteq> set_mset (mset h1)"
        unfolding p(3) by simp
      then have ps: "set popped \<subseteq> set heap" using sub by auto
      have "created (objs (heap ! 0)) \<le> created (objs r)" if "r \<in> set popped" for r
        using heap_root_created [OF less.prems(1,2)] that ps by blast
      then have s: "sorted (map (\<lambda>r. created (objs r)) (heap ! 0 # popped))"
        using p(2) by simp
      have m: "mset (heap ! 0 # popped) = filter_mset (\<lambda>r. created (objs r) \<le> th) (mset heap)"
        using False p(3) unfolding ms by simp
      have e: "expired = acc @ (heap ! 0 # popped)" using p(1) by simp
      have k: "mset heap' = filter_mset (\<lambda>r. th < created (objs r)) (mset heap)"
        using IH False unfolding ms by simp
      have i: "is_heap objs heap'" using IH by blast
      show ?thesis using e s m k i by blast
    qed
  qed
qed

subsection \<open>Exceptions\<close>

text \<open>
  The exception classes raised by the code below. The first four are service exceptions
  (subclasses of \<^verbatim>\<open>ServiceException\<close>, carrying a \<^verbatim>\<open>code\<close>); the others are not.
  The classes are declared outside the two files at hand; below only the distinction between
  the classes, and between service exceptions and the others, matters.
  \<open>InvalidArnException\<close> stands for the failure of \<^verbatim>\<open>parse_arn\<close> on a value that is no arn.
\<close>

datatype error =
    InvalidParameterValueException
  | MissingRequiredParameterException
  | ReceiptHandleIsInvalid
  | QueueDoesNotExist
  | NotImplementedError
  | KeyError
  | ValueError
  | InvalidArnException

fun is_ServiceException :: "error \<Rightarrow> bool" where
  "is_ServiceException InvalidParameterValueException = True"
| "is_ServiceException MissingRequiredParameterException = True"
| "is_ServiceException ReceiptHandleIsInvalid = True"
| "is_ServiceException QueueDoesNotExist = True"
| "is_ServiceException NotImplementedError = False"
| "is_ServiceException KeyError = False"
| "is_ServiceException ValueError = False"
| "is_ServiceException InvalidArnException = False"

fun class_name :: "error \<Rightarrow> string" where
  "class_name InvalidParameterValueException = ''InvalidParameterValueException''"
| "class_name MissingRequiredParameterException = ''MissingRequiredParameterException''"
| "class_name ReceiptHandleIsInvalid = ''ReceiptHandleIsInvalid''"
| "class_name QueueDoesNotExist = ''QueueDoesNotExist''"
| "class_name NotImplementedError = ''NotImplementedError''"
| "class_name KeyError = ''KeyError''"
| "class_name ValueError = ''ValueError''"
| "class_name InvalidArnException = ''InvalidArnException''"

text \<open>
  Modelled from the spec: the \<^verbatim>\<open>code\<close> attribute of a service exception, the
  ``classified error code'' of the section on error handling. The exception classes
  are not among the source files; a code is a string that belongs to the class.
\<close>

fun error_code :: "error \<Rightarrow> string" where
  "error_code InvalidParameterValueException = ''InvalidParameterValue''"
| "error_code MissingRequiredParameterException = ''MissingParameter''"
| "error_code ReceiptHandleIsInvalid = ''ReceiptHandleIsInvalid''"
| "error_code QueueDoesNotExist = ''AWS.SimpleQueueService.NonExistentQueue''"
| "error_code e = class_name e"

subsection \<open>Python values: truth of optional values, sets and lists of messages\<close>

text \<open>The truth value of an optional string and of an optional integer in a condition.\<close>

definition truthy_str :: "string option \<Rightarrow> bool" where
  "truthy_str s = (case s of None \<Rightarrow> False | Some x \<Rightarrow> x \<noteq> [])"

definition truthy_int :: "int option \<Rightarrow> bool" where
  "truthy_int i = (case i of None \<Rightarrow> False | Some n \<Rightarrow> n \<noteq> 0)"

text \<open>
  A set of messages is a list of references; \<^verbatim>\<open>m in s\<close>, \<^verbatim>\<open>s.add(m)\<close> and
  \<^verbatim>\<open>s.remove(m)\<close> compare by message id, and \<^verbatim>\<open>remove\<close> raises \<^verbatim>\<open>KeyError\<close>
  (here \<open>None\<close>) when no equal message is in the set.
\<close>

definition msg_in :: "store \<Rightarrow> ref \<Rightarrow> ref list \<Rightarrow> bool" where
  "msg_in objs m s = list_ex (msg_eq objs m) s"

definition set_add :: "store \<Rightarrow> ref list \<Rightarrow> ref \<Rightarrow> ref list" where
  "set_add objs s m = (if msg_in objs m s then s else s @ [m])"

definition set_remove :: "store \<Rightarrow> ref list \<Rightarrow> ref \<Rightarrow> ref list option" where
  "set_remove objs s m =
     (if msg_in objs m s then Some (filter (\<lambda>x. \<not> msg_eq objs m x) s) else None)"

text \<open>\<^verbatim>\<open>list.remove(m)\<close>: the first equal item goes; \<open>None\<close> is \<^verbatim>\<open>ValueError\<close>.\<close>

fun list_remove :: "store \<Rightarrow> ref list \<Rightarrow> ref \<Rightarrow> ref list option" where
  "list_remove objs [] m = None"
| "list_remove objs (x # xs) m =
     (if msg_eq objs x m then Some xs else map_option ((#) x) (list_remove objs xs m))"

subsection \<open>Queues\<close>

text \<open>
  The fields of \<^verbatim>\<open>SqsQueue\<close> that the operations use. The queue attributes are kept as
  the values that the properties of the class compute from the attribute map:
  \<open>queue_visibility_timeout\<close>, \<open>queue_delay_seconds\<close>, \<open>message_retention_period\<close> and
  \<open>max_receive_count\<close> (\<open>None\<close> when the queue has no redrive policy). \<open>next_ref\<close> is the
  reference that the next message object of the queue gets.
\<close>

record SqsQueue =
  arn :: string
  objs :: store
  next_ref :: ref
  queue_visibility_timeout :: int
  queue_delay_seconds :: int
  message_retention_period :: int
  max_receive_count :: "int option"
  delayed :: "ref list"
  inflight :: "ref list"
  receipts :: "ReceiptHandle \<Rightarrow> ref option"

text \<open>
  Modelled from the spec: \<^verbatim>\<open>InterruptiblePriorityQueue\<close> (the file \<^verbatim>\<open>queue.py\<close> is not
  among the sources), ``a blocking priority structure of not-yet-delivered messages ordered
  by priority ascending''. The code of the queue treats its \<^verbatim>\<open>queue\<close> attribute as a
  \<^verbatim>\<open>heapq\<close> list, so \<open>visible\<close> is that list: \<^verbatim>\<open>put_nowait\<close> is \<open>heappush\<close>, \<^verbatim>\<open>get\<close> is
  \<open>heappop\<close>, and \<^verbatim>\<open>Empty\<close> is raised on the empty list.
\<close>

record StandardQueue = SqsQueue +
  visible :: "ref list"

text \<open>
  A \<^verbatim>\<open>MessageGroup\<close> is equal to another when the group ids are, and the queue holds one
  group object for each id, so a group is referred to by its id and \<open>message_groups\<close> maps
  the id to the heap \<^verbatim>\<open>MessageGroup.messages\<close>. The id of a group is the optional string
  that \<^verbatim>\<open>SqsMessage.message_group_id\<close> returns.

  Modelled from the spec: \<^verbatim>\<open>InterruptibleQueue\<close> (\<^verbatim>\<open>queue.py\<close>), ``a blocking queue of
  groups that have at least one deliverable message'': a first-in first-out list of groups.
  \<open>content_based_deduplication\<close> is \<^verbatim>\<open>not is_message_deduplication_id_required(self)\<close>.
\<close>

record FifoQueue = SqsQueue +
  deduplication :: "string \<Rightarrow> ref option"
  message_groups :: "string option \<Rightarrow> ref list option"
  inflight_groups :: "string option set"
  message_group_queue :: "string option list"
  deduplication_scope :: string
  content_based_deduplication :: bool

record ReceiveMessageResult =
  successful :: "ref list"
  result_receipt_handles :: "ReceiptHandle list"
  dead_letter_messages :: "ref list"

definition ReceiveMessageResult_init :: ReceiveMessageResult where
  "ReceiveMessageResult_init =
     \<lparr> successful = [], result_receipt_handles = [], dead_letter_messages = [] \<rparr>"

text \<open>
  Modelled from the spec: \<^verbatim>\<open>encode_receipt_handle\<close> and \<^verbatim>\<open>extract_receipt_handle_info\<close>
  (\<^verbatim>\<open>utils.py\<close> is not among the sources). ``A receipt handle encodes queue arn, message
  id, receive timestamp'' and can be decoded, so a handle is the record of the three.
\<close>

definition create_receipt_handle :: "'a SqsQueue_scheme \<Rightarrow> SqsMessage \<Rightarrow> ReceiptHandle" where
  "create_receipt_handle q m =
     \<lparr> handle_queue_arn = arn q, handle_message_id = message_id m,
       handle_last_received = last_received m \<rparr>"

definition validate_receipt_handle :: "'a SqsQueue_scheme \<Rightarrow> ReceiptHandle \<Rightarrow> error + unit" where
  "validate_receipt_handle q receipt_handle =
     (if arn q \<noteq> handle_queue_arn receipt_handle then Inl ReceiptHandleIsInvalid else Inr ())"

text \<open>A new message object of the queue.\<close>

definition alloc :: "'a SqsQueue_scheme \<Rightarrow> SqsMessage \<Rightarrow> ref \<times> 'a SqsQueue_scheme" where
  "alloc q m = (next_ref q, q\<lparr> objs := (objs q)(next_ref q := m), next_ref := Suc (next_ref q) \<rparr>)"

text \<open>
  The block ``update message attributes'' of both \<^verbatim>\<open>receive\<close> methods; all its readings
  of the clock are \<open>now\<close>.
\<close>

definition update_message_attributes :: "SqsMessage \<Rightarrow> int \<Rightarrow> real \<Rightarrow> SqsMessage" where
  "update_message_attributes m timeout now =
     (let m1 = m\<lparr> receive_count := receive_count m + 1 \<rparr>;
          m2 = update_visibility_timeout m1 timeout now;
          m3 = set_last_received m2 now
      in if first_received m3 = None then m3\<lparr> first_received := last_received m3 \<rparr> else m3)"

text \<open>
  The condition \<^verbatim>\<open>max_receive_count and message.receive_count > max_receive_count\<close>,
  with the truth value that Python gives to \<^verbatim>\<open>max_receive_count\<close>.
\<close>

definition exceeds_max_receive_count :: "int option \<Rightarrow> SqsMessage \<Rightarrow> bool" where
  "exceeds_max_receive_count mrc m =
     (case mrc of None \<Rightarrow> False | Some n \<Rightarrow> n \<noteq> 0 \<and> receive_count m > n)"

text \<open>\<^verbatim>\<open>message.receipt_handles.add(receipt_handle)\<close>, on a set of handles.\<close>

definition add_receipt_handle :: "SqsMessage \<Rightarrow> ReceiptHandle \<Rightarrow> SqsMessage" where
  "add_receipt_handle m h =
     (if h \<in> set (receipt_handles m) then m else m\<lparr> receipt_handles := receipt_handles m @ [h] \<rparr>)"

subsection \<open>Operations of \<^verbatim>\<open>SqsQueue\<close>\<close>

text \<open>
  \<^verbatim>\<open>for handle in standard_message.receipt_handles: del self.receipts[handle]\<close>; a handle
  that is not a key of \<open>receipts\<close> raises \<^verbatim>\<open>KeyError\<close>.
\<close>

fun del_receipts ::
  "ReceiptHandle list \<Rightarrow> (ReceiptHandle \<Rightarrow> ref option) \<Rightarrow> error + (ReceiptHandle \<Rightarrow> ref option)" where
  "del_receipts [] rs = Inr rs"
| "del_receipts (h # hs) rs =
     (if rs h = None then Inl KeyError else del_receipts hs (rs(h := None)))"

text \<open>
  \<^verbatim>\<open>SqsQueue.remove(receipt_handle)\<close>. The hooks \<^verbatim>\<open>_pre_delete_checks\<close> and
  \<^verbatim>\<open>_on_remove_message\<close>, which the subclasses override, are arguments.
\<close>

definition SqsQueue_remove ::
  "('a SqsQueue_scheme \<Rightarrow> SqsMessage \<Rightarrow> ReceiptHandle \<Rightarrow> error + unit) \<Rightarrow>
   ('a SqsQueue_scheme \<Rightarrow> ref \<Rightarrow> 'a SqsQueue_scheme) \<Rightarrow>
   'a SqsQueue_scheme \<Rightarrow> ReceiptHandle \<Rightarrow> error + 'a SqsQueue_scheme" where
  "SqsQueue_remove pre_delete_checks on_remove_message q receipt_handle =
     (case validate_receipt_handle q receipt_handle of
        Inl e \<Rightarrow> Inl e
      | Inr u \<Rightarrow>
          (case receipts q receipt_handle of
             None \<Rightarrow> Inr q
           | Some standard_message \<Rightarrow>
               (case pre_delete_checks q (objs q standard_message) receipt_handle of
                  Inl e \<Rightarrow> Inl e
                | Inr u \<Rightarrow>
                    (let q1 = q\<lparr> objs := (objs q)
                                 (standard_message := (objs q standard_message)\<lparr> deleted := True \<rparr>) \<rparr>
                     in case del_receipts (receipt_handles (objs q1 standard_message)) (receipts q1) of
                          Inl e \<Rightarrow> Inl e
                        | Inr rs \<Rightarrow>
                            (let q2 = q1\<lparr> receipts := rs,
                                          objs := (objs q1)
                                            (standard_message :=
                                               (objs q1 standard_message)\<lparr> receipt_handles := [] \<rparr>) \<rparr>
                             in Inr (on_remove_message q2 standard_message))))))"

text \<open>\<^verbatim>\<open>SqsQueue._pre_delete_checks\<close>: \<^verbatim>\<open>pass\<close>.\<close>

definition SqsQueue_pre_delete_checks ::
  "'a SqsQueue_scheme \<Rightarrow> SqsMessage \<Rightarrow> ReceiptHandle \<Rightarrow> error + unit" where
  "SqsQueue_pre_delete_checks q standard_message receipt_handle = Inr ()"

definition SqsQueue_clear :: "'a SqsQueue_scheme \<Rightarrow> 'a SqsQueue_scheme" where
  "SqsQueue_clear q = q\<lparr> inflight := [], delayed := [], receipts := (\<lambda>h. None) \<rparr>"

text \<open>
  \<^verbatim>\<open>requeue_inflight_messages\<close>, with the hook \<^verbatim>\<open>_put_message\<close> as an argument. The
  messages of the set are visited in the order of the list.
\<close>

fun requeue_loop ::
  "('a SqsQueue_scheme \<Rightarrow> ref \<Rightarrow> 'a SqsQueue_scheme) \<Rightarrow> 'a SqsQueue_scheme \<Rightarrow> ref list
   \<Rightarrow> error + 'a SqsQueue_scheme" where
  "requeue_loop put_message q [] = Inr q"
| "requeue_loop put_message q (m # ms) =
     (case set_remove (objs q) (inflight q) m of
        None \<Rightarrow> Inl KeyError
      | Some s \<Rightarrow> requeue_loop put_message (put_message (q\<lparr> inflight := s \<rparr>) m) ms)"

definition requeue_inflight_messages ::
  "('a SqsQueue_scheme \<Rightarrow> ref \<Rightarrow> 'a SqsQueue_scheme) \<Rightarrow> 'a SqsQueue_scheme \<Rightarrow> real
   \<Rightarrow> error + 'a SqsQueue_scheme" where
  "requeue_inflight_messages put_message q now =
     (if inflight q = [] then Inr q
      else requeue_loop put_message q (filter (\<lambda>m. is_visible (objs q m) now) (inflight q)))"

subsection \<open>\<^verbatim>\<open>StandardQueue\<close>\<close>

definition StandardQueue_put_message :: "StandardQueue \<Rightarrow> ref \<Rightarrow> StandardQueue" where
  "StandardQueue_put_message q m = q\<lparr> visible := heappush (objs q) (visible q) m \<rparr>"

text \<open>
  \<^verbatim>\<open>StandardQueue.put\<close>. The three readings of the clock are, in the order of the code,
  the priority (an argument of the constructor), \<open>created\<close> (in the constructor) and the
  reading of \<^verbatim>\<open>is_delayed\<close>. The result is the message and the queue.
\<close>

definition StandardQueue_put ::
  "StandardQueue \<Rightarrow> real \<times> real \<times> real \<Rightarrow> Message \<Rightarrow> int option \<Rightarrow> string option \<Rightarrow> string option
   \<Rightarrow> int option \<Rightarrow> error + (SqsMessage \<times> StandardQueue)" where
  "StandardQueue_put q clock msg visibility_timeout' message_deduplication_id' message_group_id'
       delay_seconds' =
     (case clock of (t_priority, t_created, t_delayed) \<Rightarrow>
      if truthy_str message_deduplication_id' then Inl InvalidParameterValueException
      else
        (let standard_message = SqsMessage_init t_created t_priority msg None None None;
             standard_message = standard_message
               \<lparr> visibility_timeout :=
                   (case visibility_timeout' of None \<Rightarrow> queue_visibility_timeout q | Some v \<Rightarrow> v) \<rparr>;
             standard_message = standard_message
               \<lparr> delay_seconds :=
                   (case delay_seconds' of None \<Rightarrow> Some (queue_delay_seconds q) | Some d \<Rightarrow> Some d) \<rparr>;
             (r, q1) = alloc q standard_message
         in if is_delayed standard_message t_delayed
            then Inr (standard_message, q1\<lparr> delayed := set_add (objs q1) (delayed q1) r \<rparr>)
            else Inr (standard_message, StandardQueue_put_message q1 r)))"

text \<open>
  The loop ``collect messages'' of \<^verbatim>\<open>StandardQueue.receive\<close>. In the sequential
  semantics \<^verbatim>\<open>self.visible.get(block, timeout)\<close> pops the heap, or raises \<^verbatim>\<open>Empty\<close>
  when the heap is empty, whatever \<^verbatim>\<open>wait_time_seconds\<close> and \<^verbatim>\<open>poll_empty_queue\<close> are;
  they are not arguments of the model.
\<close>

function StandardQueue_collect ::
  "store \<Rightarrow> ref list \<Rightarrow> ReceiveMessageResult \<Rightarrow> int option \<Rightarrow> int \<Rightarrow> int \<Rightarrow> real
   \<Rightarrow> store \<times> ref list \<times> ReceiveMessageResult" where
  "StandardQueue_collect st vis result mrc num_messages timeout now =
     (case heappop st vis of
        None \<Rightarrow> (st, vis, result)
      | Some (m, vis') \<Rightarrow>
          if deleted (st m) then StandardQueue_collect st vis' result mrc num_messages timeout now
          else
            (let msg = update_message_attributes (st m) timeout now;
                 st1 = st(m := msg)
             in if exceeds_max_receive_count mrc msg
                then StandardQueue_collect st1 vis'
                       (result\<lparr> dead_letter_messages := dead_letter_messages result @ [m] \<rparr>)
                       mrc num_messages timeout now
                else
                  (let result' = result\<lparr> successful := successful result @ [m] \<rparr>;
                       st2 = st1(m := increment_approximate_receive_count msg)
                   in if int (length (successful result')) = num_messages
                      then (st2, vis', result')
                      else StandardQueue_collect st2 vis' result' mrc num_messages timeout now)))"
  by pat_completeness auto
termination
  by (relation "measure (\<lambda>(st, vis, result, mrc, num_messages, timeout, now). length vis)")
     (auto dest: heappop_length)

declare StandardQueue_collect.simps [simp del]

text \<open>
  The second loop of \<^verbatim>\<open>StandardQueue.receive\<close>: receipt handles and visibility of the
  successful messages.
\<close>

fun StandardQueue_register ::
  "StandardQueue \<Rightarrow> ref list \<Rightarrow> ReceiptHandle list \<Rightarrow> StandardQueue \<times> ReceiptHandle list" where
  "StandardQueue_register q [] hs = (q, hs)"
| "StandardQueue_register q (m # ms) hs =
     (let receipt_handle = create_receipt_handle q (objs q m);
          q1 = q\<lparr> objs := (objs q)(m := add_receipt_handle (objs q m) receipt_handle),
                  receipts := (receipts q)(receipt_handle := Some m) \<rparr>;
          q2 = (if visibility_timeout (objs q1 m) = 0
                then q1\<lparr> visible := heappush (objs q1) (visible q1) m \<rparr>
                else q1\<lparr> inflight := set_add (objs q1) (inflight q1) m \<rparr>)
      in StandardQueue_register q2 ms (hs @ [receipt_handle]))"

definition StandardQueue_receive ::
  "StandardQueue \<Rightarrow> int \<Rightarrow> int option \<Rightarrow> real \<Rightarrow> StandardQueue \<times> ReceiveMessageResult" where
  "StandardQueue_receive q num_messages visibility_timeout' now =
     (let mrc = max_receive_count q;
          timeout = (case visibility_timeout' of None \<Rightarrow> queue_visibility_timeout q | Some v \<Rightarrow> v);
          (st, vis, result) =
             StandardQueue_collect (objs q) (visible q) ReceiveMessageResult_init mrc num_messages
               timeout now;
          (q', hs) = StandardQueue_register (q\<lparr> objs := st, visible := vis \<rparr>) (successful result) []
      in (q', result\<lparr> result_receipt_handles := hs \<rparr>))"

text \<open>\<^verbatim>\<open>StandardQueue._on_remove_message\<close>.\<close>

definition StandardQueue_on_remove_message :: "StandardQueue \<Rightarrow> ref \<Rightarrow> StandardQueue" where
  "StandardQueue_on_remove_message q m =
     (case set_remove (objs q) (inflight q) m of
        Some s \<Rightarrow> q\<lparr> inflight := s \<rparr>
      | None \<Rightarrow>
          (case list_remove (objs q) (visible q) m of
             Some vis \<Rightarrow> q\<lparr> visible := heapify (objs q) vis \<rparr>
           | None \<Rightarrow> q))"

definition StandardQueue_remove :: "StandardQueue \<Rightarrow> ReceiptHandle \<Rightarrow> error + StandardQueue" where
  "StandardQueue_remove q receipt_handle =
     SqsQueue_remove SqsQueue_pre_delete_checks StandardQueue_on_remove_message q receipt_handle"

definition StandardQueue_clear :: "StandardQueue \<Rightarrow> StandardQueue" where
  "StandardQueue_clear q = (SqsQueue_clear q)\<lparr> visible := [] \<rparr>"

definition StandardQueue_remove_expired_messages :: "StandardQueue \<Rightarrow> real \<Rightarrow> StandardQueue" where
  "StandardQueue_remove_expired_messages q now =
     (let (expired, vis) =
            remove_expired_messages_from_heap (objs q) (visible q) (message_retention_period q) now
      in q\<lparr> visible := vis \<rparr>)"

subsection \<open>\<^verbatim>\<open>FifoQueue\<close>\<close>

text \<open>
  Modelled from the spec: \<^verbatim>\<open>DEDUPLICATION_INTERVAL_IN_SEC\<close> of \<^verbatim>\<open>constants.py\<close>, which
  is not among the sources: the deduplication window of 5 minutes.
\<close>

definition DEDUPLICATION_INTERVAL_IN_SEC :: real where
  "DEDUPLICATION_INTERVAL_IN_SEC = 5 * 60"

text \<open>The list \<^verbatim>\<open>messages\<close> of the group with the given id; a group never made is empty.\<close>

definition group_messages :: "FifoQueue \<Rightarrow> string option \<Rightarrow> ref list" where
  "group_messages q g = (case message_groups q g of None \<Rightarrow> [] | Some h \<Rightarrow> h)"

text \<open>\<^verbatim>\<open>get_message_group\<close>: the group is made when it is not in \<open>message_groups\<close>.\<close>

definition get_message_group :: "FifoQueue \<Rightarrow> string option \<Rightarrow> FifoQueue" where
  "get_message_group q g =
     (if message_groups q g = None then q\<lparr> message_groups := (message_groups q)(g := Some []) \<rparr>
      else q)"

text \<open>\<^verbatim>\<open>FifoQueue._put_message(message)\<close>.\<close>

definition FifoQueue_put_message :: "FifoQueue \<Rightarrow> ref \<Rightarrow> FifoQueue" where
  "FifoQueue_put_message q m =
     (let message_group = message_group_id (objs q m);
          q1 = get_message_group q message_group;
          previously_empty = (group_messages q1 message_group = []);
          q2 = q1\<lparr> message_groups := (message_groups q1)
                  (message_group := Some (heappush (objs q1) (group_messages q1 message_group) m)) \<rparr>
      in if receive_count (objs q2 m) < 1 \<and> message_group \<in> inflight_groups q2 then q2
         else if message_group \<in> inflight_groups q2 then
           q2\<lparr> inflight_groups := inflight_groups q2 - {message_group},
               message_group_queue := message_group_queue q2 @ [message_group] \<rparr>
         else if previously_empty then
           q2\<lparr> message_group_queue := message_group_queue q2 @ [message_group] \<rparr>
         else q2)"

text \<open>
  \<^verbatim>\<open>FifoQueue._pre_delete_checks\<close>; \<open>now\<close> is its reading of the clock. \<^verbatim>\<open>float\<close> of
  a handle without a receive time raises \<^verbatim>\<open>ValueError\<close>.
\<close>

definition FifoQueue_pre_delete_checks ::
  "real \<Rightarrow> FifoQueue \<Rightarrow> SqsMessage \<Rightarrow> ReceiptHandle \<Rightarrow> error + unit" where
  "FifoQueue_pre_delete_checks now q m receipt_handle =
     (case handle_last_received receipt_handle of
        None \<Rightarrow> Inl ValueError
      | Some t \<Rightarrow>
          if now - t > of_int (visibility_timeout m) then Inl InvalidParameterValueException
          else Inr ())"

text \<open>\<^verbatim>\<open>update_message_group_visibility(message_group)\<close>.\<close>

definition update_message_group_visibility :: "FifoQueue \<Rightarrow> string option \<Rightarrow> FifoQueue" where
  "update_message_group_visibility q message_group =
     (if message_group \<in> inflight_groups q then
        (if list_ex (\<lambda>m. message_group_id (objs q m) = message_group) (inflight q) then q
         else
           (let q1 = q\<lparr> inflight_groups := inflight_groups q - {message_group} \<rparr>
            in if group_messages q1 message_group \<noteq> []
               then q1\<lparr> message_group_queue := message_group_queue q1 @ [message_group] \<rparr>
               else q1))
      else q)"

text \<open>\<^verbatim>\<open>FifoQueue._on_remove_message\<close>; the \<^verbatim>\<open>KeyError\<close> of the set is passed over.\<close>

definition FifoQueue_on_remove_message :: "FifoQueue \<Rightarrow> ref \<Rightarrow> FifoQueue" where
  "FifoQueue_on_remove_message q m =
     (let message_group = message_group_id (objs q m);
          q1 = get_message_group q message_group;
          q2 = (case set_remove (objs q1) (inflight q1) m of
                  Some s \<Rightarrow> q1\<lparr> inflight := s \<rparr>
                | None \<Rightarrow> q1)
      in update_message_group_visibility q2 message_group)"

text \<open>\<^verbatim>\<open>FifoQueue.remove\<close>; \<open>now\<close> is the reading of the clock in the pre-delete check.\<close>

definition FifoQueue_remove :: "FifoQueue \<Rightarrow> ReceiptHandle \<Rightarrow> real \<Rightarrow> error + FifoQueue" where
  "FifoQueue_remove q receipt_handle now =
     (case validate_receipt_handle q receipt_handle of
        Inl e \<Rightarrow> Inl e
      | Inr u \<Rightarrow>
          SqsQueue_remove (FifoQueue_pre_delete_checks now) FifoQueue_on_remove_message q
            receipt_handle)"

text \<open>
  \<^verbatim>\<open>FifoQueue.put\<close>. \<open>sha256\<close> is \<^verbatim>\<open>hashlib.sha256(...).hexdigest()\<close> on the body,
  \<open>seq\<close> the string of the next global sequence number, \<open>clock\<close> the three readings of the
  clock as in \<open>StandardQueue_put\<close>. The message object enters the store of the queue when
  the queue keeps it; the message that a duplicate request returns is not kept.
\<close>

definition FifoQueue_put ::
  "FifoQueue \<Rightarrow> (string \<Rightarrow> string) \<Rightarrow> real \<times> real \<times> real \<Rightarrow> string \<Rightarrow> Message \<Rightarrow> int option
   \<Rightarrow> string option \<Rightarrow> string option \<Rightarrow> int option \<Rightarrow> error + (SqsMessage \<times> FifoQueue)" where
  "FifoQueue_put q sha256 clock seq msg visibility_timeout' message_deduplication_id'
       message_group_id' delay_seconds' =
     (case clock of (t_priority, t_created, t_delayed) \<Rightarrow>
      if truthy_int delay_seconds' then Inl InvalidParameterValueException
      else if \<not> truthy_str message_group_id' then Inl MissingRequiredParameterException
      else
        (let dedup_id = (if \<not> truthy_str message_deduplication_id' \<and> content_based_deduplication q
                         then Some (sha256 (Body msg)) else message_deduplication_id')
         in case dedup_id of
              None \<Rightarrow> Inl InvalidParameterValueException
            | Some d \<Rightarrow>
                if d = [] then Inl InvalidParameterValueException
                else
                  (let fifo_message =
                         SqsMessage_init t_created t_priority msg dedup_id message_group_id' (Some seq);
                       fifo_message = fifo_message
                         \<lparr> visibility_timeout :=
                             (case visibility_timeout' of
                                None \<Rightarrow> queue_visibility_timeout q | Some v \<Rightarrow> v) \<rparr>;
                       fifo_message = fifo_message\<lparr> delay_seconds := Some (queue_delay_seconds q) \<rparr>;
                       duplicate_of =
                         (case deduplication q d of
                            None \<Rightarrow> None
                          | Some original_message \<Rightarrow>
                              if priority (objs q original_message) + DEDUPLICATION_INTERVAL_IN_SEC
                                   > priority fifo_message
                                 \<and> (\<not> deduplication_scope q = ''messageGroup''
                                      \<or> message_group_id fifo_message
                                           = message_group_id (objs q original_message))
                              then Some original_message else None)
                   in case duplicate_of of
                        Some original_message \<Rightarrow>
                          Inr (fifo_message
                                 \<lparr> message := (message fifo_message)
                                     \<lparr> MessageId := MessageId (message (objs q original_message)) \<rparr> \<rparr>,
                               q)
                      | None \<Rightarrow>
                          (let (r, q1) = alloc q fifo_message;
                               q2 = (if is_delayed fifo_message t_delayed
                                     then q1\<lparr> delayed := set_add (objs q1) (delayed q1) r \<rparr>
                                     else FifoQueue_put_message q1 r)
                           in Inr (fifo_message,
                                   q2\<lparr> deduplication := (deduplication q2)(d := Some r) \<rparr>)))))"

text \<open>
  The inner loop of \<^verbatim>\<open>FifoQueue.receive\<close>, over the heap of one group; \<^verbatim>\<open>group.pop()\<close>
  raises \<^verbatim>\<open>IndexError\<close> on an empty group, which ends the loop.
\<close>

function FifoQueue_collect_group ::
  "store \<Rightarrow> ref list \<Rightarrow> ReceiveMessageResult \<Rightarrow> int option \<Rightarrow> int \<Rightarrow> int \<Rightarrow> real
   \<Rightarrow> store \<times> ref list \<times> ReceiveMessageResult" where
  "FifoQueue_collect_group st heap result mrc num_messages timeout now =
     (case heappop st heap of
        None \<Rightarrow> (st, heap, result)
      | Some (m, heap') \<Rightarrow>
          if deleted (st m) then FifoQueue_collect_group st heap' result mrc num_messages timeout now
          else
            (let msg = update_message_attributes (st m) timeout now;
                 st1 = st(m := msg)
             in if exceeds_max_receive_count mrc msg
                then FifoQueue_collect_group st1 heap'
                       (result\<lparr> dead_letter_messages := dead_letter_messages result @ [m] \<rparr>)
                       mrc num_messages timeout now
                else
                  (let result' = result\<lparr> successful := successful result @ [m] \<rparr>;
                       st2 = st1(m := increment_approximate_receive_count msg)
                   in if int (length (successful result')) = num_messages
                      then (st2, heap', result')
                      else FifoQueue_collect_group st2 heap' result' mrc num_messages timeout now)))"
  by pat_completeness auto
termination
  by (relation "measure (\<lambda>(st, heap, result, mrc, num_messages, timeout, now). length heap)")
     (auto dest: heappop_length)

declare FifoQueue_collect_group.simps [simp del]

text \<open>
  The outer loop of \<^verbatim>\<open>FifoQueue.receive\<close>, over the groups of \<open>message_group_queue\<close>;
  \<^verbatim>\<open>get\<close> takes the first group, or raises \<^verbatim>\<open>Empty\<close>, which ends the loop.
\<close>

function FifoQueue_collect ::
  "FifoQueue \<Rightarrow> ReceiveMessageResult \<Rightarrow> int option \<Rightarrow> int \<Rightarrow> int \<Rightarrow> real
   \<Rightarrow> FifoQueue \<times> ReceiveMessageResult" where
  "FifoQueue_collect q result mrc num_messages timeout now =
     (case message_group_queue q of
        [] \<Rightarrow> (q, result)
      | g # rest \<Rightarrow>
          (let q0 = q\<lparr> message_group_queue := rest \<rparr>
           in if group_messages q0 g = [] then FifoQueue_collect q0 result mrc num_messages timeout now
              else
                (let q1 = q0\<lparr> inflight_groups := insert g (inflight_groups q0) \<rparr>;
                     r = FifoQueue_collect_group (objs q1) (group_messages q1 g) result mrc
                           num_messages timeout now;
                     q2 = q1\<lparr> objs := fst r,
                              message_groups := (message_groups q1)(g := Some (fst (snd r))) \<rparr>;
                     result' = snd (snd r)
                 in if int (length (successful result')) = num_messages then (q2, result')
                    else FifoQueue_collect q2 result' mrc num_messages timeout now)))"
  by pat_completeness auto
termination
  by (relation "measure (\<lambda>(q, result, mrc, num_messages, timeout, now). length (message_group_queue q))")
     auto

declare FifoQueue_collect.simps [simp del]

fun FifoQueue_register ::
  "FifoQueue \<Rightarrow> ref list \<Rightarrow> ReceiptHandle list \<Rightarrow> FifoQueue \<times> ReceiptHandle list" where
  "FifoQueue_register q [] hs = (q, hs)"
| "FifoQueue_register q (m # ms) hs =
     (let receipt_handle = create_receipt_handle q (objs q m);
          q1 = q\<lparr> objs := (objs q)(m := add_receipt_handle (objs q m) receipt_handle),
                  receipts := (receipts q)(receipt_handle := Some m) \<rparr>;
          q2 = (if visibility_timeout (objs q1 m) = 0
                then FifoQueue_put_message q1 m
                else q1\<lparr> inflight := set_add (objs q1) (inflight q1) m \<rparr>)
      in FifoQueue_register q2 ms (hs @ [receipt_handle]))"

definition FifoQueue_receive ::
  "FifoQueue \<Rightarrow> int \<Rightarrow> int option \<Rightarrow> real \<Rightarrow> FifoQueue \<times> ReceiveMessageResult" where
  "FifoQueue_receive q num_messages visibility_timeout' now =
     (let mrc = max_receive_count q;
          timeout = (case visibility_timeout' of None \<Rightarrow> queue_visibility_timeout q | Some v \<Rightarrow> v);
          (q1, result) = FifoQueue_collect q ReceiveMessageResult_init mrc num_messages timeout now;
          (q', hs) = FifoQueue_register q1 (successful result) []
      in (q', result\<lparr> result_receipt_handles := hs \<rparr>))"

definition FifoQueue_clear :: "FifoQueue \<Rightarrow> FifoQueue" where
  "FifoQueue_clear q =
     (SqsQueue_clear q)
       \<lparr> deduplication := (\<lambda>d. None), message_groups := (\<lambda>g. None), inflight_groups := {},
         message_group_queue := [] \<rparr>"

definition FifoQueue_remove_expired_messages :: "FifoQueue \<Rightarrow> real \<Rightarrow> FifoQueue" where
  "FifoQueue_remove_expired_messages q now =
     q\<lparr> message_groups :=
          (\<lambda>g. map_option
                  (\<lambda>h. snd (remove_expired_messages_from_heap (objs q) h (message_retention_period q) now))
                  (message_groups q g)) \<rparr>"


section \<open>Properties of the specification\<close>

subsection \<open>Auxiliary facts\<close>

lemma heappush_mset: "mset (heappush st h x) = add_mset x (mset h)"
proof -
  have "length h < length (h @ [x])" by simp
  from siftdown_loop_mset [OF this, of st x]
  show ?thesis by (simp add: heappush_def siftdown_def)
qed

lemma heappush_Nil [simp]: "heappush st [] x = [x]"
  by (simp add: heappush_def siftdown_def siftdown_loop.simps)

lemma group_messages_get_message_group [simp]:
  "group_messages (get_message_group q g) g' = group_messages q g'"
  by (simp add: get_message_group_def group_messages_def)

lemma get_message_group_fields [simp]:
  "inflight_groups (get_message_group q g) = inflight_groups q"
  "message_group_queue (get_message_group q g) = message_group_queue q"
  "objs (get_message_group q g) = objs q"
  "inflight (get_message_group q g) = inflight q"
  "delayed (get_message_group q g) = delayed q"
  "receipts (get_message_group q g) = receipts q"
  "deduplication (get_message_group q g) = deduplication q"
  by (simp_all add: get_message_group_def)

lemma heappush_set: "set (heappush st h x) = insert x (set h)"
proof -
  have "set_mset (mset (heappush st h x)) = set_mset (add_mset x (mset h))"
    by (simp only: heappush_mset)
  then show ?thesis by simp
qed

lemma msg_in_set_add: "msg_in st m (set_add st s m)"
  by (auto simp: msg_in_def set_add_def msg_eq_def list_ex_iff)

lemma FifoQueue_put_message_member:
  "m \<in> set (group_messages (FifoQueue_put_message q m) (message_group_id (objs q m)))"
  by (auto simp: FifoQueue_put_message_def Let_def group_messages_def get_message_group_def
        heappush_set)

lemma FifoQueue_put_message_fields [simp]:
  "objs (FifoQueue_put_message q m) = objs q"
  "deduplication (FifoQueue_put_message q m) = deduplication q"
  "delayed (FifoQueue_put_message q m) = delayed q"
  "inflight (FifoQueue_put_message q m) = inflight q"
  "receipts (FifoQueue_put_message q m) = receipts q"
  by (simp_all add: FifoQueue_put_message_def Let_def get_message_group_def)

subsection \<open>Concrete messages and queues\<close>

text \<open>The instances at which the theorems below are applied.\<close>

definition example_body :: "string \<Rightarrow> Message" where
  "example_body mid =
     \<lparr> MessageId = mid, Body = ''body'', MessageGroupId = None, MessageDeduplicationId = None,
       SequenceNumber = None, DeadLetterQueueSourceArn = None, ApproximateReceiveCount = None \<rparr>"

definition example_fifo_message :: "string \<Rightarrow> string \<Rightarrow> string \<Rightarrow> real \<Rightarrow> SqsMessage" where
  "example_fifo_message mid d g t =
     (SqsMessage_init t t (example_body mid) (Some d) (Some g) (Some ''1''))
       \<lparr> visibility_timeout := 30, delay_seconds := Some 0 \<rparr>"

definition example_fifo :: FifoQueue where
  "example_fifo =
     \<lparr> arn = ''arn:aws:sqs:us-east-1:000000000000:orders.fifo'',
       objs = (\<lambda>r. example_fifo_message ''id0'' ''d0'' ''g1'' 100),
       next_ref = 1,
       queue_visibility_timeout = 30,
       queue_delay_seconds = 0,
       message_retention_period = 345600,
       max_receive_count = None,
       delayed = [],
       inflight = [],
       receipts = (\<lambda>h. None),
       deduplication = (\<lambda>d. None),
       message_groups = (\<lambda>g. None),
       inflight_groups = {},
       message_group_queue = [],
       deduplication_scope = ''queue'',
       content_based_deduplication = False \<rparr>"

definition example_message :: "string \<Rightarrow> real \<Rightarrow> SqsMessage" where
  "example_message mid t =
     SqsMessage_init t t (example_body mid) None None None"

definition example_store :: store where
  "example_store =
     (\<lambda>r. example_message ''m'' 0)
       (0 := example_message ''a'' 1, 1 := example_message ''b'' 5, 2 := example_message ''c'' 3)"

lemma example_store_simps [simp]:
  "created (example_store 0) = 1" "created (example_store (Suc 0)) = 5" "created (example_store 2) = 3"
  "priority (example_store 0) = 1" "priority (example_store (Suc 0)) = 5" "priority (example_store 2) = 3"
  by (simp_all add: example_store_def example_message_def SqsMessage_init_def)

subsection \<open>Expiry sweep of a heap\<close>

text \<open>
  Claim C8. For every list of messages that satisfies the min-heap property and whose
  priorities equal their creation times, \<open>remove_expired_messages_from_heap\<close> returns
  exactly the messages created at or before \<open>now - period\<close> (\<open>period\<close> is the message retention period) (as a
  multiset, in the order in which the roots were popped, which is ascending creation
  time), the list that remains holds exactly the messages that have not expired, and it
  still satisfies the heap property.
\<close>

theorem remove_expired_messages_from_heap_correct:
  assumes "is_heap st heap"
    and "\<forall>r \<in> set heap. priority (st r) = created (st r)"
    and "remove_expired_messages_from_heap st heap period now = (expired, heap')"
  shows "mset expired
           = filter_mset (\<lambda>r. created (st r) \<le> now - of_int period) (mset heap)
       \<and> mset heap'
           = filter_mset (\<lambda>r. now - of_int period < created (st r)) (mset heap)
       \<and> is_heap st heap'
       \<and> sorted (map (\<lambda>r. created (st r)) expired)"
proof -
  have "remove_expired_loop st (now - of_int period) heap [] = (expired, heap')"
    using assms(3) by (simp add: remove_expired_messages_from_heap_def)
  from remove_expired_loop_props [OF assms(1,2) this]
  show ?thesis by auto
qed

theorem remove_expired_messages_from_heap_correct_witness:
  "is_heap example_store [0, 1, 2]
   \<and> list_all (\<lambda>r. priority (example_store r) = created (example_store r)) [0, 1, 2]
   \<and> remove_expired_messages_from_heap example_store [0, 1, 2] 6 10 = ([0, 2], [1])
   \<and> mset [0, 2] = filter_mset (\<lambda>r. created (example_store r) \<le> 10 - of_int 6) (mset [0, 1, 2])
   \<and> mset [1] = filter_mset (\<lambda>r. 10 - of_int 6 < created (example_store r)) (mset [0, 1, 2])
   \<and> is_heap example_store [1]
   \<and> sorted (map (\<lambda>r. created (example_store r)) [0, 2])"
proof -
  have s: "{1..<length [0::ref, 1, 2]} = {1, 2}" by auto
  have h: "is_heap example_store [0, 1, 2]"
    unfolding is_heap_def s by simp
  have c: "\<forall>r \<in> set [0, 1, 2]. priority (example_store r) = created (example_store r)"
    by simp
  have e: "remove_expired_messages_from_heap example_store [0, 1, 2] 6 10 = ([0, 2], [1])"
    by (simp add: remove_expired_messages_from_heap_def remove_expired_loop.simps heappop_def
        siftup_def siftup_loop.simps siftdown_def siftdown_loop.simps msg_lt_def Let_def)
  show ?thesis
    using remove_expired_messages_from_heap_correct [OF h c e] h c e by simp
qed

subsection \<open>Message groups of a FIFO queue\<close>

text \<open>
  Claim C1. For every FIFO queue and every message, \<open>FifoQueue_put_message\<close> pushes the
  message into the heap of its group. If the group is in \<open>inflight_groups\<close> and the
  message is fresh (\<open>receive_count < 1\<close>), the group stays in \<open>inflight_groups\<close> and
  \<open>message_group_queue\<close> does not change, also when the group was empty. Otherwise, if
  the group was empty before the push or the group is in \<open>inflight_groups\<close> (and then
  the message has \<open>receive_count \<ge> 1\<close>), the group is appended to
  \<open>message_group_queue\<close> and is not in \<open>inflight_groups\<close> afterwards. In the remaining case
  neither structure changes.
\<close>

theorem FifoQueue_put_message_groups:
  "(let g = message_group_id (objs q m); q' = FifoQueue_put_message q m
    in mset (group_messages q' g) = add_mset m (mset (group_messages q g))
     \<and> (if g \<in> inflight_groups q \<and> receive_count (objs q m) < 1
        then message_group_queue q' = message_group_queue q
           \<and> inflight_groups q' = inflight_groups q
        else if group_messages q g = [] \<or> (g \<in> inflight_groups q \<and> 1 \<le> receive_count (objs q m))
        then message_group_queue q' = message_group_queue q @ [g]
           \<and> inflight_groups q' = inflight_groups q - {g}
        else message_group_queue q' = message_group_queue q
           \<and> inflight_groups q' = inflight_groups q))"
  by (auto simp: Let_def FifoQueue_put_message_def heappush_mset group_messages_def
        get_message_group_def)

theorem FifoQueue_put_message_groups_witness:
  "message_group_queue
     (FifoQueue_put_message (example_fifo\<lparr> inflight_groups := {Some ''g1''} \<rparr>) 0) = []
   \<and> inflight_groups
       (FifoQueue_put_message (example_fifo\<lparr> inflight_groups := {Some ''g1''} \<rparr>) 0) = {Some ''g1''}
   \<and> mset (group_messages
       (FifoQueue_put_message (example_fifo\<lparr> inflight_groups := {Some ''g1''} \<rparr>) 0) (Some ''g1''))
       = {#0#}"
  using FifoQueue_put_message_groups [of "example_fifo\<lparr> inflight_groups := {Some ''g1''} \<rparr>" 0]
  by (simp add: Let_def example_fifo_def example_fifo_message_def SqsMessage_init_def
      message_group_id_def example_body_def group_messages_def)

subsection \<open>Deduplication in \<^verbatim>\<open>FifoQueue.put\<close>\<close>

text \<open>
  Claim C2. Take a call of \<open>FifoQueue_put\<close> that passes the checks of its arguments,
  whose deduplication id resolves to \<open>d\<close> (the id given, or the hash of the body), and
  for which the deduplication table has a message \<open>original\<close> at \<open>d\<close>. The scope of the
  queue is one of the two values of the data model. If the priority of \<open>original\<close> is
  within \<open>DEDUPLICATION_INTERVAL_IN_SEC\<close> of the priority of the new message (the reading
  of the clock) and the scope is \<^verbatim>\<open>queue\<close> or the group ids agree, the message returned
  has the message id of \<open>original\<close> and the queue does not change. Otherwise the message
  is stored, it is in the delayed set or in the heap of its group, and the table maps
  \<open>d\<close> to it.
\<close>

theorem FifoQueue_put_deduplication:
  assumes "\<not> truthy_int delay_seconds'" and "truthy_str message_group_id'"
    and "(if \<not> truthy_str message_deduplication_id' \<and> content_based_deduplication q
          then Some (digest (Body msg)) else message_deduplication_id') = Some d"
    and "d \<noteq> []"
    and "deduplication q d = Some original"
    and "deduplication_scope q = ''queue'' \<or> deduplication_scope q = ''messageGroup''"
    and "put = FifoQueue_put q digest (t_priority, t_created, t_delayed) seq msg visibility_timeout'
                 message_deduplication_id' message_group_id' delay_seconds'"
  shows "if priority (objs q original) + DEDUPLICATION_INTERVAL_IN_SEC > t_priority
            \<and> (deduplication_scope q = ''queue''
                 \<or> message_group_id' = message_group_id (objs q original))
         then \<exists>m. put = Inr (m, q) \<and> message_id m = message_id (objs q original)
         else \<exists>m q'. put = Inr (m, q') \<and> message_id m = MessageId msg
                \<and> deduplication q' d = Some (next_ref q) \<and> objs q' (next_ref q) = m
                \<and> (msg_in (objs q') (next_ref q) (delayed q')
                     \<or> next_ref q \<in> set (group_messages q' message_group_id'))"
proof -
  obtain g where g: "message_group_id' = Some g" "g \<noteq> []"
    using assms(2) by (auto simp: truthy_str_def split: option.splits)
  define fm where "fm = (SqsMessage_init t_created t_priority msg (Some d) (Some g) (Some seq))
      \<lparr> visibility_timeout := (case visibility_timeout' of None \<Rightarrow> queue_visibility_timeout q | Some v \<Rightarrow> v),
        delay_seconds := Some (queue_delay_seconds q) \<rparr>"
  have fm: "priority fm = t_priority" "message_group_id fm = Some g" "message_id fm = MessageId msg"
    by (simp_all add: fm_def SqsMessage_init_def message_group_id_def message_id_def)
  have init: "priority (SqsMessage_init t_created t_priority msg (Some d) (Some g) (Some seq)) = t_priority"
    "message_group_id (SqsMessage_init t_created t_priority msg (Some d) (Some g) (Some seq)
        \<lparr> visibility_timeout := (case visibility_timeout' of None \<Rightarrow> queue_visibility_timeout q | Some v \<Rightarrow> v),
          delay_seconds := Some (queue_delay_seconds q) \<rparr>) = Some g"
    by (simp_all add: SqsMessage_init_def message_group_id_def)
  show ?thesis
  proof (cases "priority (objs q original) + DEDUPLICATION_INTERVAL_IN_SEC > t_priority
            \<and> (deduplication_scope q = ''queue''
                 \<or> message_group_id' = message_group_id (objs q original))")
    case True
    have c1: "t_priority < priority (objs q original) + DEDUPLICATION_INTERVAL_IN_SEC"
      using True by simp
    have c2: "deduplication_scope q \<noteq> ''messageGroup'' \<or> message_group_id (objs q original) = Some g"
      using True g(1) by auto
    have "put = Inr (fm\<lparr> message := (message fm)\<lparr> MessageId := MessageId (message (objs q original)) \<rparr> \<rparr>, q)"
    proof (cases "deduplication_scope q = ''messageGroup''")
      case mg: True
      then have "message_group_id (objs q original) = Some g" using c2 by simp
      then show ?thesis
        using assms(1-5) g(2) c1 mg unfolding assms(7) FifoQueue_put_def g(1)
        by (simp add: Let_def fm_def init)
    next
      case False
      then show ?thesis
        using assms(1-5) g(2) c1 unfolding assms(7) FifoQueue_put_def g(1)
        by (simp add: Let_def fm_def init)
    qed
    then show ?thesis using True by (auto simp: message_id_def)
  next
    case False
    have nd: "\<not> (t_priority < priority (objs q original) + DEDUPLICATION_INTERVAL_IN_SEC
                \<and> (deduplication_scope q \<noteq> ''messageGroup''
                      \<or> message_group_id (objs q original) = Some g))"
      using False assms(6) g(1) by auto
    define q1 where "q1 = q\<lparr> objs := (objs q)(next_ref q := fm), next_ref := Suc (next_ref q) \<rparr>"
    define q2 where "q2 = (if is_delayed fm t_delayed
                                     then q1\<lparr> delayed := set_add (objs q1) (delayed q1) (next_ref q) \<rparr>
                                     else FifoQueue_put_message q1 (next_ref q))"
    have p: "put = Inr (fm, q2\<lparr> deduplication := (deduplication q2)(d := Some (next_ref q)) \<rparr>)"
    proof (cases "t_priority < priority (objs q original) + DEDUPLICATION_INTERVAL_IN_SEC")
      case c1: True
      then have mg: "deduplication_scope q = ''messageGroup''"
        and ne: "message_group_id (objs q original) \<noteq> Some g" "Some g \<noteq> message_group_id (objs q original)"
        using nd by auto
      show ?thesis
        using assms(1-5) g(2) c1 mg ne unfolding assms(7) FifoQueue_put_def g(1)
        by (simp add: Let_def alloc_def q1_def q2_def fm_def init)
    next
      case False
      then show ?thesis
        using assms(1-5) g(2) unfolding assms(7) FifoQueue_put_def g(1)
        by (simp add: Let_def alloc_def q1_def q2_def fm_def init)
    qed
    have o: "objs q2 = objs q1" by (simp add: q2_def)
    have o1: "objs q1 (next_ref q) = fm" by (simp add: q1_def)
    have e: "msg_in (objs q2) (next_ref q) (delayed q2)
                     \<or> next_ref q \<in> set (group_messages q2 message_group_id')"
    proof (cases "is_delayed fm t_delayed")
      case True
      then show ?thesis using msg_in_set_add by (simp add: q2_def)
    next
      case False
      then show ?thesis
        using FifoQueue_put_message_member [of "next_ref q" q1] o1 fm g by (simp add: q2_def)
    qed
    have gm: "group_messages (q2\<lparr> deduplication := (deduplication q2)(d := Some (next_ref q)) \<rparr>) message_group_id'
               = group_messages q2 message_group_id'"
      by (simp add: group_messages_def)
    have "\<exists>m q'. put = Inr (m, q') \<and> message_id m = MessageId msg
                \<and> deduplication q' d = Some (next_ref q) \<and> objs q' (next_ref q) = m
                \<and> (msg_in (objs q') (next_ref q) (delayed q')
                     \<or> next_ref q \<in> set (group_messages q' message_group_id'))"
      using p e o o1 fm gm by simp
    then show ?thesis unfolding if_not_P [OF False] .
  qed
qed

end
